theory Spec2Isabelle
  imports Complex_Main "HOL-Library.Multiset"
begin

section \<open>Python values\<close>

text \<open>
  A Python \<open>str\<close> is a sequence of Unicode code points: slicing and \<open>len\<close> count code
  points, so the texts that \<open>send_cmd\<close> slices and concatenates are lists of code points.
  Dictionary keys and node names are only compared for equality; they are HOL strings.
\<close>

type_synonym pystr = "nat list"

definition lit :: "string \<Rightarrow> pystr" where
  "lit s = map of_char s"

text \<open>
  A Python \<open>float\<close> is an IEEE 754 binary64 value: a finite one is the rational it
  denotes, and the arithmetic below rounds its results to binary64.
\<close>

datatype pyfloat = Finite rat | NaN | PosInf | NegInf

text \<open>
  What \<open>ref.get()\<close> hands back: JSON data as Python objects, \<open>JNull\<close> being \<open>None\<close>.
  A string \<open>s\<close> comes with what \<open>float(s)\<close> gives for it, \<open>None\<close> when that raises
  \<open>ValueError\<close>: which strings \<open>float\<close> reads (signs, exponents, underscores, white
  space, the decimal digits of every script) is the library's matter, and nothing here
  depends on it.
\<close>

datatype json =
    JNull
  | JBool bool
  | JInt int
  | JFloat pyfloat
  | JStr pystr "pyfloat option"
  | JArr "json list"
  | JObj "(string \<times> json) list"

text \<open>\<open>d.get(k)\<close> on a dict: the value stored under \<open>k\<close>, \<open>None\<close> when there is none.\<close>

definition dict_get :: "(string \<times> json) list \<Rightarrow> string \<Rightarrow> json" where
  "dict_get kvs k = (case map_of kvs k of None \<Rightarrow> JNull | Some v \<Rightarrow> v)"

text \<open>Truth value testing, as \<open>or\<close> and \<open>if\<close> apply it.\<close>

fun truthy :: "json \<Rightarrow> bool" where
  "truthy JNull = False"
| "truthy (JBool b) = b"
| "truthy (JInt i) = (i \<noteq> 0)"
| "truthy (JFloat f) = (f \<noteq> Finite 0)"
| "truthy (JStr s f) = (s \<noteq> [])"
| "truthy (JArr xs) = (xs \<noteq> [])"
| "truthy (JObj kvs) = (kvs \<noteq> [])"

text \<open>
  Exceptions raised by the external libraries (\<open>requests\<close>, \<open>firebase_admin\<close>) carry their
  class and the text \<open>str(e)\<close> gives. \<open>KeyboardInterrupt\<close> and \<open>SystemExit\<close> derive from
  \<open>BaseException\<close> only; every other class derives from \<open>Exception\<close>.
\<close>

datatype exn_class =
    Timeout | ConnectionRefused | DNSFailure | TLSError | ServiceError | OtherException
  | KeyboardInterrupt | SystemExit

datatype exn = Exn exn_class pystr

fun exn_str :: "exn \<Rightarrow> pystr" where
  "exn_str (Exn c m) = m"

fun is_Exception :: "exn \<Rightarrow> bool" where
  "is_Exception (Exn KeyboardInterrupt m) = False"
| "is_Exception (Exn SystemExit m) = False"
| "is_Exception (Exn c m) = True"

text \<open>What the module's own statements can raise, besides what a library raised.\<close>

datatype py_error = KeyError string | AttributeError | External exn

section \<open>Naive local datetimes\<close>

text \<open>
  \<open>datetime.fromtimestamp\<close> and \<open>datetime.now\<close> return naive datetimes in local time.
  Two naive datetimes compare field by field, which is the order of their distance from
  1970-01-01T00:00:00 on the same naive time line; a datetime is that distance in
  microseconds. The calendar arithmetic is the one of Python's \<open>datetime\<close> module
  (\<open>_days_before_year\<close>, \<open>_days_before_month\<close>, \<open>_ymd2ord\<close>).
\<close>

type_synonym datetime = int

definition is_leap :: "int \<Rightarrow> bool" where
  "is_leap y = (y mod 4 = 0 \<and> (y mod 100 \<noteq> 0 \<or> y mod 400 = 0))"

definition days_before_year :: "int \<Rightarrow> int" where
  "days_before_year y = (y - 1) * 365 + (y - 1) div 4 - (y - 1) div 100 + (y - 1) div 400"

definition days_before_month :: "int \<Rightarrow> int \<Rightarrow> int" where
  "days_before_month y m =
     [0, 31, 59, 90, 120, 151, 181, 212, 243, 273, 304, 334] ! nat (m - 1)
     + (if m > 2 \<and> is_leap y then 1 else 0)"

definition ymd2ord :: "int \<Rightarrow> int \<Rightarrow> int \<Rightarrow> int" where
  "ymd2ord y m d = days_before_year y + days_before_month y m + d"

text \<open>\<open>datetime(y, m, d, hh, mm, ss, us)\<close>, for field values in range.\<close>

definition mk_datetime :: "int \<Rightarrow> int \<Rightarrow> int \<Rightarrow> int \<Rightarrow> int \<Rightarrow> int \<Rightarrow> int \<Rightarrow> datetime" where
  "mk_datetime y m d hh mm ss us =
     ((ymd2ord y m d - ymd2ord 1970 1 1) * 86400 + hh * 3600 + mm * 60 + ss) * 1000000 + us"

definition datetime_min :: datetime where
  "datetime_min = mk_datetime 1 1 1 0 0 0 0"

definition datetime_max :: datetime where
  "datetime_max = mk_datetime 9999 12 31 23 59 59 999999"

section \<open>The history table\<close>

text \<open>
  One row of the per-node \<open>DataFrame\<close>, with the columns of line 102. A missing time
  (\<open>NaT\<close>) is \<open>None\<close>; a metric the snapshot lacks is \<open>JNull\<close>.
\<close>

record row =
  time :: "datetime option"
  temperature :: json
  humidity :: json
  luminosity :: json
  sound :: json
  fan_state :: json

type_synonym dataframe = "row list"

text \<open>\<open>st.session_state["hist"]\<close>: a dict from node name to that node's frame.\<close>

type_synonym hist = "string \<rightharpoonup> dataframe"

definition NODES :: "string list" where
  "NODES = [''node1'', ''node2'']"

text \<open>Lines 101-102: every node starts with an empty frame.\<close>

definition init_hist :: hist where
  "init_hist = map_of (map (\<lambda>n. (n, [])) NODES)"

section \<open>The environment\<close>

text \<open>
  What the module takes from its libraries and its host and does not define:
  \<^item> \<open>utcoffset\<close>: the local zone's offset from UTC, in seconds, at a POSIX second;
  \<^item> \<open>sort_values\<close>: \<open>DataFrame.sort_values("time")\<close>. pandas sorts with quicksort by
    default, which may order rows of equal time either way, so the sort is a parameter
    of which only \<open>sort_spec\<close> is assumed.
\<close>

record env =
  utcoffset :: "int \<Rightarrow> int"
  sort_values :: "dataframe \<Rightarrow> dataframe"

definition has_time :: "row \<Rightarrow> bool" where
  "has_time r = (time r \<noteq> None)"

definition time_of :: "row \<Rightarrow> datetime" where
  "time_of r = the (time r)"

definition sort_spec :: "env \<Rightarrow> bool" where
  "sort_spec e =
     (\<forall>df. list_all has_time df \<longrightarrow>
        mset (sort_values e df) = mset df \<and> sorted (map time_of (sort_values e df)))"


section \<open>Timestamps (lines 67-73)\<close>

text \<open>Rounding to the nearest integer, a tie going to the even one.\<close>

definition round_half_even :: "rat \<Rightarrow> int" where
  "round_half_even q =
     (let f = \<lfloor>q\<rfloor>; r = q - of_int f
      in if r < 1 / 2 then f else if r > 1 / 2 then f + 1 else if even f then f else f + 1)"

text \<open>
  Rounding to binary64. \<open>ilog2 q\<close> is the exponent of a positive \<open>q\<close>, the integer \<open>k\<close>
  with \<open>2^k \<le> q < 2^(k+1)\<close>; a binary64 value has 53 significant bits, so its last bit is
  worth \<open>2^(k-52)\<close>, and \<open>2^-1074\<close> below the normal range. \<open>round_double q\<close> is the
  multiple of that unit nearest to \<open>q\<close>, a tie going to the even one; it is the binary64
  result of an operation whose exact result is \<open>q\<close>, as long as that does not overflow.
\<close>

fun bit_length :: "nat \<Rightarrow> nat" where
  "bit_length n = (if n = 0 then 0 else Suc (bit_length (n div 2)))"

declare bit_length.simps [simp del]

definition ilog2 :: "rat \<Rightarrow> int" where
  "ilog2 q = (if q \<ge> 1 then int (bit_length (nat \<lfloor>q\<rfloor>)) - 1
              else - int (bit_length (nat (\<lceil>1 / q\<rceil> - 1))))"

definition pow2 :: "int \<Rightarrow> rat" where
  "pow2 k = (if k \<ge> 0 then 2 ^ nat k else 1 / 2 ^ nat (- k))"

definition round_double :: "rat \<Rightarrow> rat" where
  "round_double q =
     (if q = 0 then 0
      else let ulp = pow2 (max (ilog2 \<bar>q\<bar>) (- 1022) - 52)
           in of_int (round_half_even (q / ulp)) * ulp)"

text \<open>
  \<open>float(x)\<close>; \<open>None\<close> when it raises (\<open>TypeError\<close> for \<open>None\<close>, a list or a dict,
  \<open>ValueError\<close> for a string that is no number, \<open>OverflowError\<close> for an int that rounds
  beyond the largest float).
\<close>

definition float_overflow :: int where
  "float_overflow = 2 ^ 1024 - 2 ^ 970"

fun py_float :: "json \<Rightarrow> pyfloat option" where
  "py_float JNull = None"
| "py_float (JBool b) = Some (Finite (if b then 1 else 0))"
| "py_float (JInt i) =
     (if \<bar>i\<bar> \<ge> float_overflow then None else Some (Finite (round_double (of_int i))))"
| "py_float (JFloat f) = Some f"
| "py_float (JStr s f) = f"
| "py_float (JArr xs) = None"
| "py_float (JObj kvs) = None"

text \<open>\<open>x / 1000.0\<close>; the divisor is not zero, so nothing is raised.\<close>

fun div_1000 :: "pyfloat \<Rightarrow> pyfloat" where
  "div_1000 (Finite q) = Finite (round_double (q / 1000))"
| "div_1000 f = f"

text \<open>
  The microseconds of a float of seconds, as \<open>fromtimestamp\<close> takes them: \<open>modf\<close> splits
  the float into its integer part (towards zero) and the rest, exactly; the rest times
  \<open>1e6\<close> is a float product, which is rounded to an integer, half to even.
\<close>

definition py_trunc :: "rat \<Rightarrow> int" where
  "py_trunc q = (if q \<ge> 0 then \<lfloor>q\<rfloor> else \<lceil>q\<rceil>)"

definition to_microseconds :: "rat \<Rightarrow> int" where
  "to_microseconds q =
     (let intpart = py_trunc q;
          floatpart = round_double ((q - of_int intpart) * 1000000)
      in intpart * 1000000 + round_half_even floatpart)"

text \<open>
  The local wall time, in seconds, at a POSIX second, and the seconds that fall in the
  years 1 to 9999.
\<close>

definition local_seconds :: "env \<Rightarrow> int \<Rightarrow> int" where
  "local_seconds e t = t + utcoffset e t"

definition in_years :: "int \<Rightarrow> bool" where
  "in_years s = (datetime_min \<le> s * 1000000 \<and> s * 1000000 \<le> datetime_max)"

text \<open>
  \<open>datetime.fromtimestamp(x)\<close>, as CPython has it on a platform other than Windows
  whose \<open>time_t\<close> has 64 bits. The float is cut into seconds and microseconds and the seconds are moved to
  local time. To find out whether the time is the second one of a repeated hour, the
  local time 24 hours earlier is computed, and when the zone's offset has gone down in
  between, the local time earlier by that step as well. Each of these local times must
  lie in the years 1 to 9999. \<open>None\<close> when it raises (\<open>ValueError\<close> for a NaN or a year
  out of range, \<open>OverflowError\<close> for an infinity or seconds beyond \<open>time_t\<close>).
\<close>

fun fromtimestamp :: "env \<Rightarrow> pyfloat \<Rightarrow> datetime option" where
  "fromtimestamp e (Finite q) =
     (let us = to_microseconds q;
          timet = us div 1000000;
          result_seconds = local_seconds e timet;
          probe_seconds = local_seconds e (timet - 86400);
          transition = result_seconds - probe_seconds - 86400
      in if in_years result_seconds \<and> in_years probe_seconds \<and>
            (transition \<ge> 0 \<or> in_years (local_seconds e (timet + transition)))
         then Some (result_seconds * 1000000 + us mod 1000000)
         else None)"
| "fromtimestamp e f = None"

text \<open>Lines 67-73. \<open>except Exception\<close> catches every exception the \<open>try\<close> body raises.\<close>

definition ms_to_datetime :: "env \<Rightarrow> json \<Rightarrow> datetime option" where
  "ms_to_datetime e ts_ms =
     (if ts_ms = JNull then None
      else case py_float ts_ms of
             None \<Rightarrow> None
           | Some x \<Rightarrow> fromtimestamp e (div_1000 x))"

section \<open>The history aggregator (lines 105-121)\<close>

text \<open>\<open>df.dropna(subset=["time"])\<close>: the rows that have a time.\<close>

definition dropna_time :: "dataframe \<Rightarrow> dataframe" where
  "dropna_time df = filter has_time df"

text \<open>
  \<open>df.iloc[start:]\<close>: a negative start counts from the end, and a start outside the frame
  is clipped to it.
\<close>

definition iloc_from :: "dataframe \<Rightarrow> int \<Rightarrow> dataframe" where
  "iloc_from df start =
     (let n = int (length df);
          s = (if start < 0 then max 0 (start + n) else min start n)
      in drop (nat s) df)"

text \<open>
  Lines 107-115. A datetime is always true, so \<open>ms_to_datetime(...) or dt.datetime.now()\<close>
  is the parsed time when there is one and the clock's reading otherwise; \<open>now\<close> is the
  reading \<open>dt.datetime.now()\<close> gives in this call.
\<close>

definition make_row :: "env \<Rightarrow> datetime \<Rightarrow> (string \<times> json) list \<Rightarrow> row" where
  "make_row e now last' =
     (let t = (case ms_to_datetime e (dict_get last' ''ts'') of Some d \<Rightarrow> d | None \<Rightarrow> now)
      in \<lparr> time = Some t,
           temperature = dict_get last' ''temperature'',
           humidity = dict_get last' ''humidity'',
           luminosity = dict_get last' ''luminosity'',
           sound = dict_get last' ''sound'',
           fan_state = dict_get last' ''fan_state'' \<rparr>)"

text \<open>
  Lines 105-121, with \<open>HISTORY_POINTS\<close> (line 25, any integer the environment variable
  holds) as \<open>C\<close>. Line 106 raises \<open>KeyError\<close> for a node without a frame; line 107 raises
  \<open>AttributeError\<close> where \<open>last\<close> is no dict. The result is the updated session state.
\<close>

definition push_history :: "env \<Rightarrow> int \<Rightarrow> datetime \<Rightarrow> hist \<Rightarrow> string \<Rightarrow> json \<Rightarrow> py_error + hist" where
  "push_history e C now h node_name last' =
     (case h node_name of
        None \<Rightarrow> Inl (KeyError node_name)
      | Some df \<Rightarrow>
          (case last' of
             JObj kvs \<Rightarrow>
               (let row = make_row e now kvs;
                    df1 = df @ [row];
                    df2 = sort_values e (dropna_time df1);
                    df3 = (if int (length df2) > C then iloc_from df2 (- C) else df2)
                in Inr (h(node_name \<mapsto> df3)))
           | _ \<Rightarrow> Inl AttributeError))"

text \<open>
  What lines 116-120 make of the frame \<open>df\<close> and the new row: the frame that
  \<open>push_history\<close> stores.
\<close>

definition merge_row :: "env \<Rightarrow> int \<Rightarrow> dataframe \<Rightarrow> row \<Rightarrow> dataframe" where
  "merge_row e C df row =
     (let df2 = sort_values e (dropna_time (df @ [row]))
      in if int (length df2) > C then iloc_from df2 (- C) else df2)"

text \<open>
  \<open>df\<close> holds the \<open>c\<close> most recent rows of \<open>all\<close>: it is as long as the capacity or as
  \<open>all\<close>, its rows are rows of \<open>all\<close>, and no row of \<open>all\<close> left out is later than a row
  kept.
\<close>

definition newest_of :: "nat \<Rightarrow> row list \<Rightarrow> dataframe \<Rightarrow> bool" where
  "newest_of c all df =
     (length df = min c (length all) \<and> mset df \<subseteq># mset all \<and>
      (\<forall>x \<in># mset all - mset df. \<forall>y \<in> set df. time_of x \<le> time_of y))"

text \<open>
  A sequence of appends: each call has its own clock reading, node and snapshot, and the
  first exception ends the sequence.
\<close>

fun push_all :: "env \<Rightarrow> int \<Rightarrow> hist \<Rightarrow> (datetime \<times> string \<times> json) list \<Rightarrow> py_error + hist" where
  "push_all e C h [] = Inr h"
| "push_all e C h ((now, node_name, last') # ops) =
     (case push_history e C now h node_name last' of
        Inl err \<Rightarrow> Inl err
      | Inr h' \<Rightarrow> push_all e C h' ops)"

text \<open>The rows a sequence of appends hands to one node's frame, in the order of the calls.\<close>

fun appended :: "env \<Rightarrow> string \<Rightarrow> (datetime \<times> string \<times> json) list \<Rightarrow> row list" where
  "appended e n [] = []"
| "appended e n ((now, node_name, JObj kvs) # ops) =
     (if node_name = n then make_row e now kvs # appended e n ops else appended e n ops)"
| "appended e n (_ # ops) = appended e n ops"

fun is_dict :: "json \<Rightarrow> bool" where
  "is_dict (JObj kvs) = True"
| "is_dict _ = False"

text \<open>Calls as the page makes them: the node is one of \<open>NODES\<close>, the snapshot a dict.\<close>

definition ops_ok :: "(datetime \<times> string \<times> json) list \<Rightarrow> bool" where
  "ops_ok ops = list_all (\<lambda>(now, node_name, last'). node_name \<in> set NODES \<and> is_dict last') ops"

text \<open>The frame of node \<open>n\<close> in a result, empty where there is none.\<close>

definition frame_of :: "py_error + hist \<Rightarrow> string \<Rightarrow> dataframe" where
  "frame_of r n = (case r of Inl err \<Rightarrow> [] | Inr h \<Rightarrow> (case h n of None \<Rightarrow> [] | Some df \<Rightarrow> df))"

text \<open>
  The wall clock as the sequence of its successive readings. A call of \<open>push_history\<close>
  that starts at reading \<open>i\<close> takes reading \<open>i + 1\<close> at line 107 and has returned by
  reading \<open>i + 2\<close>; the result is given with the readings at its start and its end.
\<close>

definition timed_push ::
  "(nat \<Rightarrow> datetime) \<Rightarrow> nat \<Rightarrow> env \<Rightarrow> int \<Rightarrow> hist \<Rightarrow> string \<Rightarrow> json
     \<Rightarrow> datetime \<times> (py_error + hist) \<times> datetime" where
  "timed_push clock i e C h node_name last' =
     (clock i, push_history e C (clock (i + 1)) h node_name last', clock (i + 2))"

section \<open>The snapshot fetcher (lines 41-47) and the live fetch (lines 125-127)\<close>

text \<open>
  The remote store: what \<open>db.reference(path).get()\<close> does for a path, either raising or
  returning the value stored there (\<open>None\<close> when nothing is).
\<close>

type_synonym database = "string \<Rightarrow> exn + json"

definition fb_get_last :: "database \<Rightarrow> string \<Rightarrow> exn + json" where
  "fb_get_last db node = db (''/iot/'' @ node @ ''/last'')"

text \<open>
  Lines 125-127: \<open>last = fb_get_last(node) or {}\<close>, then the append when \<open>last\<close> is true.
  Nothing catches what \<open>fb_get_last\<close> raises.
\<close>

definition live_fetch ::
  "env \<Rightarrow> int \<Rightarrow> datetime \<Rightarrow> database \<Rightarrow> hist \<Rightarrow> string \<Rightarrow> py_error + hist" where
  "live_fetch e C now db h node =
     (case fb_get_last db node of
        Inl x \<Rightarrow> Inl (External x)
      | Inr val \<Rightarrow>
          (let last' = (if truthy val then val else JObj [])
           in if truthy last' then push_history e C now h node last' else Inr h))"

section \<open>The command dispatcher (lines 50-64)\<close>

record request =
  url :: string
  body_node :: string
  body_payload :: json
  timeout :: nat

record response =
  status_code :: int
  resp_text :: pystr

text \<open>\<open>requests.post\<close>: it raises or returns a response.\<close>

type_synonym http = "request \<Rightarrow> exn + response"

text \<open>\<open>str(i)\<close> of an int, as an f-string formats it: decimal digits after the sign.\<close>

fun digits :: "nat \<Rightarrow> pystr" where
  "digits n = (if n < 10 then [48 + n] else digits (n div 10) @ [48 + n mod 10])"

declare digits.simps [simp del]

definition py_str_int :: "int \<Rightarrow> pystr" where
  "py_str_int i = (if i < 0 then 45 # digits (nat (- i)) else digits (nat i))"

text \<open>
  Lines 50-64. \<open>except Exception\<close> catches what derives from \<open>Exception\<close>; any other
  exception leaves the function.
\<close>

definition send_cmd :: "http \<Rightarrow> string \<Rightarrow> string \<Rightarrow> json \<Rightarrow> exn + (bool \<times> pystr)" where
  "send_cmd post NODERED_CMD_URL node payload =
     (case post \<lparr> url = NODERED_CMD_URL, body_node = node, body_payload = payload, timeout = 3 \<rparr> of
        Inr r \<Rightarrow>
          (if status_code r \<ge> 200 \<and> status_code r < 300
           then Inr (True, lit ''OK ('' @ py_str_int (status_code r) @ lit '')'')
           else Inr (False, lit ''HTTP '' @ py_str_int (status_code r) @ lit '': '' @ take 200 (resp_text r)))
      | Inl x \<Rightarrow> (if is_Exception x then Inr (False, exn_str x) else Inl x))"

section \<open>Concrete environments\<close>

text \<open>
  A stable insertion sort by time is one sort that \<open>sort_values\<close> may be. The two
  environments differ in the local zone: UTC, and one hour east of it.
\<close>

definition stable_sort :: "dataframe \<Rightarrow> dataframe" where
  "stable_sort df = sort_key time_of df"

definition env_utc :: env where
  "env_utc = \<lparr> utcoffset = (\<lambda>s. 0), sort_values = stable_sort \<rparr>"

definition env_cet :: env where
  "env_cet = \<lparr> utcoffset = (\<lambda>s. 3600), sort_values = stable_sort \<rparr>"

text \<open>The snapshot of the scenario: temperature 24.5, humidity 55, ts 1700000000000.\<close>

definition snap1 :: json where
  "snap1 = JObj [(''temperature'', JFloat (Finite (49 / 2))), (''humidity'', JInt 55),
                 (''ts'', JInt 1700000000000)]"

text \<open>Three appends out of time order, to two nodes.\<close>

definition ops3 :: "(datetime \<times> string \<times> json) list" where
  "ops3 = [(10, ''node2'', snap1),
           (20, ''node2'', JObj [(''ts'', JInt 5)]),
           (30, ''node1'', JObj [(''humidity'', JInt 40)])]"

text \<open>130 appends to one node, a millisecond apart.\<close>

definition ops130 :: "(datetime \<times> string \<times> json) list" where
  "ops130 = map (\<lambda>k. (0, ''node2'', JObj [(''ts'', JInt (int k))])) [0..<130]"

text \<open>The same snapshot fetched on two refresh cycles.\<close>

definition dup_ops :: "(datetime \<times> string \<times> json) list" where
  "dup_ops = [(0, ''node2'', snap1), (1500000, ''node2'', snap1)]"

text \<open>A clock that advances by a microsecond from one reading to the next.\<close>

definition clock1 :: "nat \<Rightarrow> datetime" where
  "clock1 k = 1000 + int k"

text \<open>Relays and stores for the scenarios.\<close>

definition post204 :: http where
  "post204 req = Inr \<lparr> status_code = 204, resp_text = [] \<rparr>"

definition post500 :: http where
  "post500 req = Inr \<lparr> status_code = 500, resp_text = replicate 250 120 \<rparr>"

definition post_timeout :: http where
  "post_timeout req = Inl (Exn Timeout (lit ''timed out''))"

definition db_down :: database where
  "db_down path = Inl (Exn ServiceError (lit ''unavailable''))"

definition db_empty :: database where
  "db_empty path = Inr JNull"

text \<open>The relay's address (line 21) and the command of the scenario.\<close>

definition cmd_url :: string where
  "cmd_url = ''http://172.161.163.190:1880/api/cmd''"

definition set_rgb :: json where
  "set_rgb = JObj [(''cmd'', JStr (lit ''set_rgb'') None), (''r'', JInt 0), (''g'', JInt 120), (''b'', JInt 255)]"

text \<open>A store that holds an empty dict for every path.\<close>

definition db_empty_dict :: database where
  "db_empty_dict path = Inr (JObj [])"


section \<open>Facts about the frames\<close>

lemma has_time_make_row: "has_time (make_row e now kvs)"
  by (simp add: has_time_def make_row_def Let_def)

lemma dropna_time_id: "list_all has_time df \<Longrightarrow> dropna_time df = df"
  by (simp add: dropna_time_def list_all_iff)

lemma has_time_dropna: "list_all has_time (dropna_time df)"
  by (simp add: dropna_time_def list_all_iff)

lemma sort_mset: "sort_spec e \<Longrightarrow> list_all has_time df \<Longrightarrow> mset (sort_values e df) = mset df"
  by (simp add: sort_spec_def)

lemma sort_sorted: "sort_spec e \<Longrightarrow> list_all has_time df \<Longrightarrow> sorted (map time_of (sort_values e df))"
  by (simp add: sort_spec_def)

lemma sort_set: "sort_spec e \<Longrightarrow> list_all has_time df \<Longrightarrow> set (sort_values e df) = set df"
  using sort_mset [of e df] by (metis set_mset_mset)

lemma sort_length: "sort_spec e \<Longrightarrow> list_all has_time df \<Longrightarrow> length (sort_values e df) = length df"
  using sort_mset [of e df] by (metis size_mset)

lemma sort_has_time: "sort_spec e \<Longrightarrow> list_all has_time df \<Longrightarrow> list_all has_time (sort_values e df)"
  by (simp add: list_all_iff sort_set)

lemma iloc_from_drop: "\<exists>k. iloc_from df s = drop k df"
  by (auto simp: iloc_from_def Let_def)

lemma iloc_from_tail:
  "0 < C \<Longrightarrow> int (length df) > C \<Longrightarrow> iloc_from df (- C) = drop (length df - nat C) df"
  by (simp add: iloc_from_def Let_def nat_diff_distrib' max_def) 

lemma push_history_dict:
  "h n = Some df \<Longrightarrow>
   push_history e C now h n (JObj kvs) = Inr (h(n \<mapsto> merge_row e C df (make_row e now kvs)))"
  by (simp add: push_history_def merge_row_def Let_def)

lemma push_history_InrD:
  "push_history e C now h n l = Inr h' \<Longrightarrow>
   \<exists>kvs df. l = JObj kvs \<and> h n = Some df \<and> h' = h(n \<mapsto> merge_row e C df (make_row e now kvs))"
  by (auto simp: push_history_def merge_row_def Let_def split: option.splits json.splits)

lemma merge_row_sorted:
  assumes "sort_spec e"
  shows "list_all has_time (merge_row e C df row) \<and> sorted (map time_of (merge_row e C df row))"
proof -
  let ?s = "sort_values e (dropna_time (df @ [row]))"
  have a: "list_all has_time ?s" and b: "sorted (map time_of ?s)"
    using assms has_time_dropna by (simp_all add: sort_has_time sort_sorted)
  obtain k where k: "iloc_from ?s (- C) = drop k ?s"
    using iloc_from_drop by blast
  have "list_all has_time (drop k ?s)"
    using a by (auto simp: list_all_iff dest: in_set_dropD)
  moreover have "sorted (map time_of (drop k ?s))"
    using b by (simp add: sorted_wrt_drop drop_map[symmetric])
  ultimately show ?thesis
    using a b k by (simp add: merge_row_def Let_def)
qed

lemma merge_row_no_trim:
  assumes "sort_spec e" "list_all has_time df" "has_time row" "int (length df) < C"
  shows "mset (merge_row e C df row) = mset df + {#row#}"
    and "length (merge_row e C df row) = length df + 1"
proof -
  have d: "dropna_time (df @ [row]) = df @ [row]"
    using assms by (simp add: dropna_time_id)
  have l: "length (sort_values e (df @ [row])) = length df + 1"
    using assms by (simp add: sort_length)
  have m: "merge_row e C df row = sort_values e (df @ [row])"
    using assms l d by (simp add: merge_row_def Let_def)
  show "mset (merge_row e C df row) = mset df + {#row#}"
    using assms m by (simp add: sort_mset)
  show "length (merge_row e C df row) = length df + 1"
    using m l by simp
qed


lemma merge_row_trim:
  assumes "sort_spec e" "list_all has_time df" "has_time row" "0 < C" "int (length df) = C"
  shows "\<exists>d. mset df + {#row#} = mset (merge_row e C df row) + {#d#} \<and>
             (\<forall>y \<in> set (merge_row e C df row). time_of d \<le> time_of y) \<and>
             length (merge_row e C df row) = length df"
proof -
  let ?s = "sort_values e (df @ [row])"
  have d: "dropna_time (df @ [row]) = df @ [row]"
    using assms by (simp add: dropna_time_id)
  have l: "length ?s = length df + 1"
    using assms by (simp add: sort_length)
  have ms: "mset ?s = mset df + {#row#}"
    using assms by (simp add: sort_mset)
  have so: "sorted (map time_of ?s)"
    using assms by (simp add: sort_sorted)
  have "iloc_from ?s (- C) = drop (length ?s - nat C) ?s"
    using assms l by (intro iloc_from_tail) simp_all
  moreover have "length ?s - nat C = 1"
    using assms l by simp
  ultimately have m: "merge_row e C df row = drop 1 ?s"
    using assms l d by (simp add: merge_row_def Let_def)
  obtain d K where s: "?s = d # K"
    using l by (cases ?s) simp_all
  have K: "merge_row e C df row = K"
    using m s by simp
  have "mset df + {#row#} = mset K + {#d#}"
    using ms s by simp
  moreover have "\<forall>y \<in> set K. time_of d \<le> time_of y"
    using so s by simp
  moreover have "length K = length df"
    using l s by simp
  ultimately show ?thesis
    using K by blast
qed

lemma newest_of_step:
  assumes e: "sort_spec e" and C: "0 < C" and r: "has_time row" and t: "list_all has_time df"
    and inv: "newest_of (nat C) A df"
  shows "newest_of (nat C) (A @ [row]) (merge_row e C df row)"
proof (cases "int (length df) < C")
  case True
  have len: "length df = length A"
    using inv True by (simp add: newest_of_def min_def split: if_splits)
  have "mset df \<subseteq># mset A"
    using inv by (simp add: newest_of_def)
  with len have eq: "mset df = mset A"
    by (metis size_mset mset_subset_size subset_mset.le_imp_less_or_eq less_irrefl)  
  have "mset (merge_row e C df row) = mset (A @ [row])"
    using merge_row_no_trim(1) [OF e t r True] eq by simp
  moreover have "length (merge_row e C df row) = min (nat C) (length (A @ [row]))"
    using merge_row_no_trim(2) [OF e t r True] len True by simp
  ultimately show ?thesis
    by (simp add: newest_of_def)
next
  case False
  have lenC: "int (length df) = C"
    using inv False C by (simp add: newest_of_def min_def split: if_splits)
  obtain d where d: "mset df + {#row#} = mset (merge_row e C df row) + {#d#}"
    and dle: "\<forall>y \<in> set (merge_row e C df row). time_of d \<le> time_of y"
    and dlen: "length (merge_row e C df row) = length df"
    using merge_row_trim [OF e t r C lenC] by blast
  let ?K = "merge_row e C df row"
  have sub: "mset df \<subseteq># mset A" and old: "\<forall>x \<in># mset A - mset df. \<forall>y \<in> set df. time_of x \<le> time_of y"
    and lenA: "length df = min (nat C) (length A)"
    using inv by (simp_all add: newest_of_def)
  obtain E where E: "mset A = mset df + E"
    using sub by (metis subset_mset.le_iff_add)
  have tot: "mset (A @ [row]) = mset ?K + (E + {#d#})"
    using E d by (simp add: ac_simps)
  have 1: "length ?K = min (nat C) (length (A @ [row]))"
    using dlen lenA lenC by simp
  have 2: "mset ?K \<subseteq># mset (A @ [row])"
    using tot by simp
  have ev: "mset (A @ [row]) - mset ?K = E + {#d#}"
    using tot by simp
  have Eold: "\<forall>x \<in># E. \<forall>y \<in> set df. time_of x \<le> time_of y"
    using old E by simp
  have 3: "time_of x \<le> time_of y" if x: "x \<in># E + {#d#}" and y: "y \<in> set ?K" for x y
  proof (cases "x = d")
    case True
    then show ?thesis using dle y by simp
  next
    case xd: False
    then have xE: "x \<in># E" using x by simp
    have dmem: "d \<in># mset df + {#row#}"
      using d by simp
    show ?thesis
    proof (cases "d = row")
      case True
      then have "mset ?K = mset df" using d by simp
      then have "y \<in> set df" using y by (metis set_mset_mset)
      then show ?thesis using Eold xE by blast
    next
      case False
      then have "d \<in> set df" using dmem by simp
      then have "time_of x \<le> time_of d" using Eold xE by blast
      then show ?thesis using dle y by force
    qed
  qed
  show ?thesis
    unfolding newest_of_def using 1 2 3 ev by auto
qed


lemma init_hist_node: "n \<in> set NODES \<Longrightarrow> init_hist n = Some []"
  by (auto simp: init_hist_def NODES_def)

lemma init_hist_Some: "init_hist n = Some df \<Longrightarrow> df = []"
  by (auto simp: init_hist_def NODES_def split: if_splits)

lemma dom_init_hist: "dom init_hist = set NODES"
  by (auto simp: init_hist_def NODES_def split: if_splits)

lemma push_history_dom: "push_history e C now h n l = Inr h' \<Longrightarrow> dom h' = dom h"
  by (auto dest!: push_history_InrD split: if_splits)

lemma push_all_dom: "push_all e C h ops = Inr h' \<Longrightarrow> dom h' = dom h"
proof (induction ops arbitrary: h)
  case Nil
  then show ?case by simp
next
  case (Cons op ops)
  obtain now m l where op: "op = (now, m, l)"
    by (cases op) auto
  from Cons.prems op obtain h1 where h1: "push_history e C now h m l = Inr h1"
    and rest: "push_all e C h1 ops = Inr h'"
    by (auto split: sum.splits)
  show ?case
    using Cons.IH [OF rest] push_history_dom [OF h1] by simp
qed

lemma push_all_ok:
  "ops_ok ops \<Longrightarrow> set NODES \<subseteq> dom h \<Longrightarrow> \<exists>h'. push_all e C h ops = Inr h'"
proof (induction ops arbitrary: h)
  case Nil
  then show ?case by simp
next
  case (Cons op ops)
  obtain now m l where op: "op = (now, m, l)"
    by (cases op) auto
  from Cons.prems op have m: "m \<in> set NODES" and l: "is_dict l" and ok: "ops_ok ops"
    by (simp_all add: ops_ok_def)
  from l obtain kvs where kvs: "l = JObj kvs"
    by (cases l) simp_all
  from m Cons.prems(2) obtain df where df: "h m = Some df"
    by blast
  let ?h1 = "h(m \<mapsto> merge_row e C df (make_row e now kvs))"
  have "set NODES \<subseteq> dom ?h1"
    using Cons.prems(2) by auto
  from Cons.IH [OF ok this] obtain h' where "push_all e C ?h1 ops = Inr h'"
    by blast
  then show ?case
    using op kvs df by (simp add: push_history_dict)
qed

lemma push_all_node_inv:
  assumes step: "\<And>A df now kvs.
      P A df \<Longrightarrow> P (A @ [make_row e now kvs]) (merge_row e C df (make_row e now kvs))"
  shows "push_all e C h ops = Inr h' \<Longrightarrow> h n = Some df \<Longrightarrow> P A df \<Longrightarrow>
         \<exists>df'. h' n = Some df' \<and> P (A @ appended e n ops) df'"
proof (induction ops arbitrary: h df A)
  case Nil
  then show ?case by simp
next
  case (Cons op ops)
  obtain now m l where op: "op = (now, m, l)"
    by (cases op) auto
  from Cons.prems(1) op obtain h1 where h1: "push_history e C now h m l = Inr h1"
    and rest: "push_all e C h1 ops = Inr h'"
    by (auto split: sum.splits)
  from push_history_InrD [OF h1] obtain kvs dfm where l: "l = JObj kvs"
    and dfm: "h m = Some dfm"
    and h1_eq: "h1 = h(m \<mapsto> merge_row e C dfm (make_row e now kvs))"
    by blast
  show ?case
  proof (cases "m = n")
    case True
    let ?row = "make_row e now kvs"
    have "dfm = df"
      using dfm True Cons.prems(2) by simp
    then have a: "h1 n = Some (merge_row e C df ?row)"
      using h1_eq True by simp
    have b: "P (A @ [?row]) (merge_row e C df ?row)"
      using step Cons.prems(3) by blast
    from Cons.IH [OF rest a b] show ?thesis
      using op l True by simp
  next
    case False
    then have a: "h1 n = Some df"
      using h1_eq Cons.prems(2) by simp
    from Cons.IH [OF rest a Cons.prems(3)] show ?thesis
      using op l False by simp
  qed
qed

lemma push_all_sorted:
  assumes "sort_spec e" "push_all e C init_hist ops = Inr h" "h n = Some df"
  shows "list_all has_time df \<and> sorted (map time_of df)"
proof -
  have "n \<in> dom init_hist"
    using push_all_dom [OF assms(2)] assms(3) by auto
  then have i: "init_hist n = Some []"
    by (simp add: dom_init_hist init_hist_node)
  have "\<exists>df'. h n = Some df' \<and> (list_all has_time df' \<and> sorted (map time_of df'))"
    by (rule push_all_node_inv [where P = "\<lambda>A df. list_all has_time df \<and> sorted (map time_of df)"
          and A = "[]", OF _ assms(2) i])
       (simp_all add: merge_row_sorted [OF assms(1)])
  then show ?thesis
    using assms(3) by simp
qed

lemma sort_spec_env_utc: "sort_spec env_utc"
  by (simp add: sort_spec_def env_utc_def stable_sort_def)

lemma sort_spec_env_cet: "sort_spec env_cet"
  by (simp add: sort_spec_def env_cet_def stable_sort_def)

text \<open>
  The float arithmetic at the timestamps of the scenarios: 1700000000000 ms and 5 ms.
\<close>

lemma floor_rat_numeral: "\<lfloor>numeral a / numeral b :: rat\<rfloor> = numeral a div numeral b"
  by (metis floor_divide_of_int_eq of_int_numeral)

lemma bit_length_values:
  "bit_length 5 = 3" "bit_length 199 = 8" "bit_length 5000 = 13"
  "bit_length 1700000000 = 31" "bit_length 1700000000000 = 41"
  by (simp_all add: bit_length.simps)

lemma ilog2_values:
  "ilog2 5 = 2" "ilog2 (1 / 200) = - 8" "ilog2 1700000000 = 30" "ilog2 1700000000000 = 40"
  "ilog2 (90071992547409921875 / 18014398509481984) = 12"
  by (simp_all add: ilog2_def bit_length_values floor_rat_numeral)

lemma round_half_even_int: "round_half_even (of_int k) = k"
  by (simp add: round_half_even_def)

lemma round_half_even_numeral: "round_half_even (numeral k) = numeral k"
  using round_half_even_int [of "numeral k"] by simp

lemma round_half_even_zero: "round_half_even 0 = 0"
  using round_half_even_int [of 0] by simp

lemma round_half_even_up:
  "\<lfloor>q\<rfloor> = f \<Longrightarrow> 1 / 2 < q - of_int f \<Longrightarrow> round_half_even q = f + 1"
  by (simp add: round_half_even_def)

lemma round_half_even_down:
  "\<lfloor>q\<rfloor> = f \<Longrightarrow> q - of_int f < 1 / 2 \<Longrightarrow> round_half_even q = f"
  by (simp add: round_half_even_def)

lemma rhe_200: "round_half_even (144115188075855872 / 25) = 5764607523034235"
  by (rule round_half_even_up [where f = 5764607523034234, simplified])
     (simp_all add: floor_rat_numeral)

lemma rhe_5000: "round_half_even (90071992547409921875 / 16384) = 5497558138880000"
  by (rule round_half_even_down [where f = 5497558138880000])
     (simp_all add: floor_rat_numeral)

lemma round_double_values:
  "round_double 5 = 5"
  "round_double 1700000000 = 1700000000"
  "round_double 1700000000000 = 1700000000000"
  by (simp_all add: round_double_def ilog2_values pow2_def round_half_even_numeral)

lemma round_double_200: "round_double (1 / 200) = 5764607523034235 / 1152921504606846976"
  by (simp add: round_double_def ilog2_values pow2_def rhe_200)

lemma round_double_5000: "round_double (90071992547409921875 / 18014398509481984) = 5000"
  by (simp add: round_double_def ilog2_values pow2_def rhe_5000)

lemma to_microseconds_scenario: "to_microseconds 1700000000 = 1700000000000000"
  by (simp add: to_microseconds_def py_trunc_def round_double_def round_half_even_zero)

lemma to_microseconds_5: "to_microseconds (5764607523034235 / 1152921504606846976) = 5000"
  by (simp add: to_microseconds_def py_trunc_def floor_rat_numeral round_double_5000
      round_half_even_numeral)

lemma float_ms_scenario:
  "map_option div_1000 (py_float (JInt 1700000000000)) = Some (Finite 1700000000)"
  by (simp add: float_overflow_def round_double_values)

lemma float_ms_5:
  "map_option div_1000 (py_float (JInt 5)) =
   Some (Finite (5764607523034235 / 1152921504606846976))"
  by (simp add: float_overflow_def round_double_values round_double_200)

lemma ms_to_datetime_Finite:
  "map_option div_1000 (py_float v) = Some x \<Longrightarrow> v \<noteq> JNull \<Longrightarrow>
   ms_to_datetime e v = fromtimestamp e x"
  by (auto simp: ms_to_datetime_def split: option.splits)

lemma ms_to_datetime_JNull: "ms_to_datetime e JNull = None"
  by (simp add: ms_to_datetime_def)

lemmas calendar_defs =
  mk_datetime_def ymd2ord_def days_before_year_def days_before_month_def is_leap_def
  datetime_min_def datetime_max_def

lemma ms_to_datetime_utc_scenario:
  "ms_to_datetime env_utc (JInt 1700000000000) = Some 1700000000000000"
  by (simp add: ms_to_datetime_Finite [OF float_ms_scenario] to_microseconds_scenario
      local_seconds_def in_years_def env_utc_def calendar_defs Let_def)

lemma ms_to_datetime_cet_scenario:
  "ms_to_datetime env_cet (JInt 1700000000000) = Some 1700003600000000"
  by (simp add: ms_to_datetime_Finite [OF float_ms_scenario] to_microseconds_scenario
      local_seconds_def in_years_def env_cet_def calendar_defs Let_def)

lemma ms_to_datetime_utc_5: "ms_to_datetime env_utc (JInt 5) = Some 5000"
  by (simp add: ms_to_datetime_Finite [OF float_ms_5] to_microseconds_5
      local_seconds_def in_years_def env_utc_def calendar_defs Let_def)

text \<open>
  Two timestamps at the edges. 253402300799999 ms is not a float of seconds: the division
  rounds, and the microseconds are 998993, not 999000. The first instant of year 1 is
  rejected, since the local time 24 hours earlier is in no year; a day later is accepted.
\<close>

lemma round_half_even_neg_numeral: "round_half_even (- numeral k) = - numeral k"
  using round_half_even_int [of "- numeral k"] by simp

lemma bit_length_edge_values:
  "bit_length 998992 = 20" "bit_length 253402300799 = 38" "bit_length 253402300799999 = 48"
  "bit_length 62135510400 = 36" "bit_length 62135596800 = 36"
  "bit_length 62135510400000 = 46" "bit_length 62135596800000 = 46"
  by (simp_all add: bit_length.simps)

lemma ilog2_edge_values:
  "ilog2 253402300799999 = 47" "ilog2 (253402300799999 / 1000) = 37"
  "ilog2 (511484375 / 512) = 19"
  "ilog2 62135510400 = 35" "ilog2 62135596800 = 35"
  "ilog2 62135510400000 = 45" "ilog2 62135596800000 = 45"
  by (simp_all add: ilog2_def bit_length_edge_values floor_rat_numeral)

lemma rhe_edge_down: "round_half_even (1037935824076795904 / 125) = 8303486592614367"
  by (rule round_half_even_down [where f = 8303486592614367])
     (simp_all add: floor_rat_numeral)

lemma rhe_edge_up: "round_half_even (511484375 / 512) = 998993"
  by (rule round_half_even_up [where f = 998992, simplified])
     (simp_all add: floor_rat_numeral)

lemma round_double_edge_values:
  "round_double 253402300799999 = 253402300799999"
  "round_double (253402300799999 / 1000) = 8303486592614367 / 32768"
  "round_double (511484375 / 512) = 511484375 / 512"
  "round_double (- 62135510400000) = - 62135510400000"
  "round_double (- 62135596800000) = - 62135596800000"
  "round_double (- 62135510400) = - 62135510400"
  "round_double (- 62135596800) = - 62135596800"
  by (simp_all add: round_double_def ilog2_edge_values pow2_def round_half_even_numeral
      round_half_even_neg_numeral rhe_edge_down)

lemma to_microseconds_edge:
  "to_microseconds (8303486592614367 / 32768) = 253402300799998993"
  by (simp add: to_microseconds_def py_trunc_def floor_rat_numeral round_double_edge_values
      rhe_edge_up)

lemma to_microseconds_year_1:
  "to_microseconds (- 62135596800) = - 62135596800000000"
  "to_microseconds (- 62135510400) = - 62135510400000000"
  by (simp_all add: to_microseconds_def py_trunc_def round_double_def round_half_even_zero)

lemma ms_to_datetime_rounds_as_double:
  "ms_to_datetime env_utc (JInt 253402300799999) = Some (mk_datetime 9999 12 31 23 59 59 998993)"
proof -
  have "map_option div_1000 (py_float (JInt 253402300799999)) =
      Some (Finite (8303486592614367 / 32768))"
    by (simp add: float_overflow_def round_double_edge_values)
  then show ?thesis
    by (simp add: ms_to_datetime_Finite to_microseconds_edge local_seconds_def in_years_def
        env_utc_def calendar_defs Let_def)
qed

lemma ms_to_datetime_first_day_of_year_1:
  "ms_to_datetime env_utc (JInt (- 62135596800000)) = None"
  "ms_to_datetime env_utc (JInt (- 62135510400000)) = Some (mk_datetime 1 1 2 0 0 0 0)"
proof -
  have "map_option div_1000 (py_float (JInt (- 62135596800000))) = Some (Finite (- 62135596800))"
    by (simp add: float_overflow_def round_double_edge_values)
  then show "ms_to_datetime env_utc (JInt (- 62135596800000)) = None"
    by (simp add: ms_to_datetime_Finite to_microseconds_year_1 local_seconds_def in_years_def
        env_utc_def calendar_defs Let_def)
  have "map_option div_1000 (py_float (JInt (- 62135510400000))) = Some (Finite (- 62135510400))"
    by (simp add: float_overflow_def round_double_edge_values)
  then show "ms_to_datetime env_utc (JInt (- 62135510400000)) = Some (mk_datetime 1 1 2 0 0 0 0)"
    by (simp add: ms_to_datetime_Finite to_microseconds_year_1 local_seconds_def in_years_def
        env_utc_def calendar_defs Let_def)
qed

text \<open>Timestamps that do not resolve: an absent one, and values that are no number.\<close>

lemma ms_to_datetime_absent: "map_of kvs ''ts'' = None \<Longrightarrow> ms_to_datetime e (dict_get kvs ''ts'') = None"
  by (simp add: dict_get_def ms_to_datetime_def)

lemma ms_to_datetime_not_a_number:
  "ms_to_datetime e (JArr xs) = None"
  "ms_to_datetime e (JObj kvs) = None"
  "ms_to_datetime e (JFloat NaN) = None"
  "ms_to_datetime e (JFloat PosInf) = None"
  "ms_to_datetime e (JFloat NegInf) = None"
  "ms_to_datetime e (JStr s None) = None"
  by (simp_all add: ms_to_datetime_def)

lemma sort_values_concrete:
  "sort_values env_utc = stable_sort" "sort_values env_cet = stable_sort"
  by (simp_all add: env_utc_def env_cet_def)

lemmas eval_defs =
  push_history_def make_row_def dict_get_def iloc_from_def dropna_time_def has_time_def
  time_of_def frame_of_def init_hist_def NODES_def stable_sort_def sort_values_concrete
  snap1_def ms_to_datetime_JNull ms_to_datetime_utc_scenario ms_to_datetime_cet_scenario
  ms_to_datetime_utc_5 Let_def

lemma appended_map:
  "appended e n (map (\<lambda>k. (f k, n, JObj (g k))) ks) = map (\<lambda>k. make_row e (f k) (g k)) ks"
  by (induction ks) simp_all

lemma push_all_runs:
  assumes "ops_ok ops" and "n \<in> set NODES"
  shows "\<exists>h df. push_all e C init_hist ops = Inr h \<and> h n = Some df"
proof -
  obtain h where h: "push_all e C init_hist ops = Inr h"
    using push_all_ok [OF assms(1), of init_hist e C] by (auto simp: dom_init_hist)
  have "n \<in> dom h"
    using push_all_dom [OF h] assms(2) by (simp add: dom_init_hist)
  then show ?thesis
    using h by blast
qed

lemma frame_of_Inr: "r = Inr h \<Longrightarrow> h n = Some df \<Longrightarrow> frame_of r n = df"
  by (simp add: frame_of_def)




text \<open>\<open>digits\<close> writes a number in decimal: the digits read back give the number.\<close>

lemma digits_value: "foldl (\<lambda>a d. 10 * a + (d - 48)) 0 (digits n) = n"
proof (induction n rule: digits.induct)
  case (1 n)
  show ?case
  proof (cases "n < 10")
    case True
    then show ?thesis by (subst digits.simps) simp
  next
    case False
    then show ?thesis
      using "1.IH" by (subst digits.simps) simp
  qed
qed

lemma digits_range: "d \<in> set (digits n) \<Longrightarrow> 48 \<le> d \<and> d \<le> 57"
proof (induction n rule: digits.induct)
  case (1 n)
  show ?case
  proof (cases "n < 10")
    case True
    then show ?thesis using "1.prems" by (subst (asm) digits.simps) simp
  next
    case False
    have "n mod 10 < 10" by simp
    then show ?thesis
      using "1.IH" "1.prems" False by (subst (asm) digits.simps) auto
  qed
qed

section \<open>The claims\<close>

text \<open>
  C1. After every sequence of \<open>push_history\<close> calls on the initial session state, hence
  after each call of a sequence, the frame of every node has a time in each row and is
  sorted by that time, ascending. The calls return: none of them raises.
\<close>

theorem history_sorted_after_every_append:
  assumes "sort_spec e" and "ops_ok ops" and "n \<in> set NODES"
  shows "\<exists>h df. push_all e C init_hist ops = Inr h \<and> h n = Some df \<and>
                list_all has_time df \<and> sorted (map time_of df)"
proof -
  obtain h where h: "push_all e C init_hist ops = Inr h"
    using push_all_ok [OF assms(2), of init_hist e C] by (auto simp: dom_init_hist)
  have "n \<in> dom h"
    using push_all_dom [OF h] assms(3) by (simp add: dom_init_hist)
  then obtain df where df: "h n = Some df"
    by blast
  show ?thesis
    using h df push_all_sorted [OF assms(1) h df] by blast
qed

theorem history_sorted_witness:
  "sort_spec env_utc \<and> ops_ok ops3 \<and> ''node2'' \<in> set NODES \<and>
   (\<exists>h df. push_all env_utc 120 init_hist ops3 = Inr h \<and> h ''node2'' = Some df \<and>
            list_all has_time df \<and> sorted (map time_of df)) \<and>
   map time (frame_of (push_all env_utc 120 init_hist ops3) ''node2'') =
     [Some 5000, Some (mk_datetime 2023 11 14 22 13 20 0)]"
proof -
  have a: "sort_spec env_utc"
    by (rule sort_spec_env_utc)
  have b: "ops_ok ops3"
    by (simp add: ops_ok_def ops3_def NODES_def snap1_def)
  have c: "''node2'' \<in> set NODES"
    by (simp add: NODES_def)
  have d: "map time (frame_of (push_all env_utc 120 init_hist ops3) ''node2'') =
     [Some 5000, Some (mk_datetime 2023 11 14 22 13 20 0)]"
    by (simp add: ops3_def eval_defs calendar_defs)
  show ?thesis
    using a b c d history_sorted_after_every_append [OF a b c, of 120] by simp
qed

text \<open>
  C2. The claim is right and the code misses it at a capacity of 0. Line 119 sees a frame
  longer than the capacity and line 120 means to cut it, but \<open>df.iloc[-0:]\<close> is the whole
  frame: with \<open>HISTORY_POINTS = 0\<close> one append to the empty frame leaves one row and two
  appends leave two, more than the capacity.
\<close>

theorem capacity_zero_not_trimmed:
  "length (frame_of (push_all env_utc 0 init_hist [(0, ''node2'', snap1)]) ''node2'') = 1 \<and>
   length (frame_of (push_all env_utc 0 init_hist dup_ops) ''node2'') = 2"
  by (simp add: dup_ops_def eval_defs calendar_defs)

text \<open>
  For every capacity \<open>C\<close> of at least 1 the code does what C2 says. After every sequence
  of appends on the initial session state, the frame of a node holds \<open>min C k\<close> rows,
  where \<open>k\<close> is the number of rows appended to that node: at most \<open>C\<close>, and exactly \<open>C\<close>
  once more than \<open>C\<close> rows were appended. The rows kept are rows that were appended, and
  no row left out has a later time than a row kept: the oldest rows are the ones evicted.
\<close>

lemma history_keeps_newest:
  assumes "sort_spec e" and "0 < C" and "ops_ok ops" and "n \<in> set NODES"
  shows "\<exists>h df. push_all e C init_hist ops = Inr h \<and> h n = Some df \<and>
                length df = min (nat C) (length (appended e n ops)) \<and>
                mset df \<subseteq># mset (appended e n ops) \<and>
                (\<forall>x \<in># mset (appended e n ops) - mset df. \<forall>y \<in> set df. time_of x \<le> time_of y)"
proof -
  obtain h where h: "push_all e C init_hist ops = Inr h"
    using push_all_ok [OF assms(3), of init_hist e C] by (auto simp: dom_init_hist)
  have i: "init_hist n = Some []"
    using assms(4) by (rule init_hist_node)
  have "\<exists>df. h n = Some df \<and> (list_all has_time df \<and> newest_of (nat C) ([] @ appended e n ops) df)"
  proof (rule push_all_node_inv [where P = "\<lambda>A df. list_all has_time df \<and> newest_of (nat C) A df",
          OF _ h i])
    show "list_all has_time [] \<and> newest_of (nat C) [] []"
      by (simp add: newest_of_def)
  next
    fix A df now kvs
    assume "list_all has_time df \<and> newest_of (nat C) A df"
    then show "list_all has_time (merge_row e C df (make_row e now kvs)) \<and>
               newest_of (nat C) (A @ [make_row e now kvs]) (merge_row e C df (make_row e now kvs))"
      using merge_row_sorted [OF assms(1)] newest_of_step [OF assms(1,2) has_time_make_row]
      by blast
  qed
  then show ?thesis
    using h unfolding newest_of_def by auto
qed

text \<open>
  The scenario of C2: 130 appends with capacity 120 leave exactly 120 rows; 10 rows are
  evicted, none of them later than a row kept.
\<close>

lemma history_130_of_120:
  "\<exists>h df. push_all env_utc 120 init_hist ops130 = Inr h \<and> h ''node2'' = Some df \<and>
      length df = 120 \<and> mset df \<subseteq># mset (appended env_utc ''node2'' ops130) \<and>
      size (mset (appended env_utc ''node2'' ops130) - mset df) = 10 \<and>
      (\<forall>x \<in># mset (appended env_utc ''node2'' ops130) - mset df.
         \<forall>y \<in> set df. time_of x \<le> time_of y)"
proof -
  have a: "sort_spec env_utc"
    by (rule sort_spec_env_utc)
  have b: "(0::int) < 120"
    by simp
  have c: "ops_ok ops130"
    by (simp add: ops_ok_def ops130_def NODES_def list_all_iff)
  have d: "''node2'' \<in> set NODES"
    by (simp add: NODES_def)
  have len: "length (appended env_utc ''node2'' ops130) = 130"
    by (simp add: ops130_def appended_map)
  obtain h df where h: "push_all env_utc 120 init_hist ops130 = Inr h" "h ''node2'' = Some df"
    and l: "length df = min (nat 120) (length (appended env_utc ''node2'' ops130))"
    and m: "mset df \<subseteq># mset (appended env_utc ''node2'' ops130)"
    and o: "\<forall>x \<in># mset (appended env_utc ''node2'' ops130) - mset df.
         \<forall>y \<in> set df. time_of x \<le> time_of y"
    using history_keeps_newest [OF a b c d] by blast
  have l': "length df = 120"
    using l len by simp
  have "size (mset (appended env_utc ''node2'' ops130) - mset df) = 130 - 120"
    using m len l' by (simp add: size_Diff_submset)
  then show ?thesis
    using h l' m o by auto
qed

text \<open>
  C3. For a snapshot whose \<open>ts\<close> is absent or does not parse (\<open>ms_to_datetime\<close> gives
  \<open>None\<close>), the row gets the clock's reading taken inside the call as its time. With a
  clock that does not run backwards, that reading is no earlier than the reading at the
  start of the call and no later than the one at its end. The row passes \<open>dropna\<close> and
  the sort: it is in the frame that the capacity trim receives.
\<close>

theorem missing_timestamp_gets_clock_reading:
  assumes "sort_spec e" and "mono clock" and "h n = Some df"
    and "ms_to_datetime e (dict_get kvs ''ts'') = None"
  shows "let r = make_row e (clock (i + 1)) kvs;
             df2 = sort_values e (dropna_time (df @ [r]))
         in timed_push clock i e C h n (JObj kvs) =
              (clock i,
               Inr (h(n \<mapsto> (if int (length df2) > C then iloc_from df2 (- C) else df2))),
               clock (i + 2)) \<and>
            time r = Some (clock (i + 1)) \<and>
            clock i \<le> clock (i + 1) \<and> clock (i + 1) \<le> clock (i + 2) \<and>
            r \<in> set df2"
proof -
  let ?r = "make_row e (clock (i + 1)) kvs"
  let ?df2 = "sort_values e (dropna_time (df @ [?r]))"
  have t: "time ?r = Some (clock (i + 1))"
    using assms(4) by (simp add: make_row_def)
  have "?r \<in> set (dropna_time (df @ [?r]))"
    using has_time_make_row [of e "clock (i + 1)" kvs] by (simp add: dropna_time_def)
  then have m: "?r \<in> set ?df2"
    using sort_set [OF assms(1) has_time_dropna] by simp
  have c: "clock i \<le> clock (i + 1)" "clock (i + 1) \<le> clock (i + 2)"
    using assms(2) by (simp_all add: mono_def)
  have "timed_push clock i e C h n (JObj kvs) =
      (clock i, Inr (h(n \<mapsto> (if int (length ?df2) > C then iloc_from ?df2 (- C) else ?df2))),
       clock (i + 2))"
    using assms(3) by (simp add: timed_push_def push_history_def Let_def)
  then show ?thesis
    using t m c by (simp add: Let_def)
qed

theorem missing_timestamp_witness:
  "sort_spec env_utc \<and> mono clock1 \<and> init_hist ''node2'' = Some [] \<and>
   ms_to_datetime env_utc (dict_get [(''temperature'', JInt 20)] ''ts'') = None \<and>
   timed_push clock1 0 env_utc 120 init_hist ''node2'' (JObj [(''temperature'', JInt 20)]) =
     (1000,
      Inr (init_hist(''node2'' \<mapsto>
        [\<lparr> time = Some 1001, temperature = JInt 20, humidity = JNull, luminosity = JNull,
            sound = JNull, fan_state = JNull \<rparr>])),
      1002)"
proof -
  have a: "sort_spec env_utc"
    by (rule sort_spec_env_utc)
  have b: "mono clock1"
    by (simp add: mono_def clock1_def)
  have c: "init_hist ''node2'' = Some []"
    by (simp add: init_hist_def NODES_def)
  have d: "ms_to_datetime env_utc (dict_get [(''temperature'', JInt 20)] ''ts'') = None"
    by (simp add: ms_to_datetime_def dict_get_def)
  have r: "make_row env_utc 1001 [(''temperature'', JInt 20)] =
      \<lparr> time = Some 1001, temperature = JInt 20, humidity = JNull, luminosity = JNull,
        sound = JNull, fan_state = JNull \<rparr>"
    by (simp add: make_row_def ms_to_datetime_def dict_get_def)
  have s: "sort_values env_utc [\<lparr> time = Some 1001, temperature = JInt 20, humidity = JNull,
      luminosity = JNull, sound = JNull, fan_state = JNull \<rparr>] =
      [\<lparr> time = Some 1001, temperature = JInt 20, humidity = JNull, luminosity = JNull,
         sound = JNull, fan_state = JNull \<rparr>]"
    by (simp add: env_utc_def stable_sort_def)
  show ?thesis
    using a b c d
      missing_timestamp_gets_clock_reading [where e = env_utc and clock = clock1
        and h = init_hist and n = "''node2''" and df = "[]"
        and kvs = "[(''temperature'', JInt 20)]" and i = 0 and C = 120]
    by (simp add: Let_def r s dropna_time_def has_time_def clock1_def)
qed

text \<open>
  C7, as the code has it. The claim fails: nothing in \<open>push_history\<close> removes duplicates,
  and the same snapshot appended twice leaves two rows with the same time.
\<close>

theorem equal_times_counterexample:
  "\<not> distinct (map time (frame_of (push_all env_utc 120 init_hist dup_ops) ''node2''))"
  by (simp add: dup_ops_def eval_defs calendar_defs)

text \<open>
  C7, amended. The aggregator orders the rows by time and does not deduplicate: as long
  as no more than \<open>C\<close> rows were appended to a node, its frame holds every appended row,
  each resolved time as often as it was appended, sorted by time.
\<close>

theorem history_keeps_equal_times:
  assumes "sort_spec e" and "ops_ok ops" and "n \<in> set NODES"
    and "int (length (appended e n ops)) \<le> C"
  shows "\<exists>h df. push_all e C init_hist ops = Inr h \<and> h n = Some df \<and>
                mset df = mset (appended e n ops) \<and> sorted (map time_of df)"
proof -
  obtain h where h: "push_all e C init_hist ops = Inr h"
    using push_all_ok [OF assms(2), of init_hist e C] by (auto simp: dom_init_hist)
  have i: "init_hist n = Some []"
    using assms(3) by (rule init_hist_node)
  let ?P = "\<lambda>A df. list_all has_time df \<and> (int (length A) \<le> C \<longrightarrow> mset df = mset A)"
  have "\<exists>df. h n = Some df \<and> ?P ([] @ appended e n ops) df"
  proof (rule push_all_node_inv [where P = ?P, OF _ h i])
    show "?P [] []"
      by simp
  next
    fix A df now kvs
    let ?row = "make_row e now kvs"
    assume P: "?P A df"
    have "mset (merge_row e C df ?row) = mset (A @ [?row])" if "int (length (A @ [?row])) \<le> C"
    proof -
      have eq: "mset df = mset A"
        using P that by simp
      then have "length df = length A"
        by (metis size_mset)
      then have "int (length df) < C"
        using that by simp
      then show ?thesis
        using merge_row_no_trim(1) [OF assms(1) _ has_time_make_row] P eq by simp
    qed
    then show "?P (A @ [?row]) (merge_row e C df ?row)"
      using merge_row_sorted [OF assms(1)] by blast
  qed
  then obtain df where df: "h n = Some df" "mset df = mset (appended e n ops)"
    using assms(4) by auto
  show ?thesis
    using h df push_all_sorted [OF assms(1) h df(1)] by blast
qed

theorem history_keeps_equal_times_witness:
  "sort_spec env_utc \<and> ops_ok dup_ops \<and> ''node2'' \<in> set NODES \<and>
   int (length (appended env_utc ''node2'' dup_ops)) \<le> 120 \<and>
   (\<exists>h df. push_all env_utc 120 init_hist dup_ops = Inr h \<and> h ''node2'' = Some df \<and>
      mset df = mset (appended env_utc ''node2'' dup_ops) \<and> sorted (map time_of df)) \<and>
   map time (frame_of (push_all env_utc 120 init_hist dup_ops) ''node2'') =
     [Some (mk_datetime 2023 11 14 22 13 20 0), Some (mk_datetime 2023 11 14 22 13 20 0)]"
proof -
  have a: "sort_spec env_utc"
    by (rule sort_spec_env_utc)
  have b: "ops_ok dup_ops"
    by (simp add: ops_ok_def dup_ops_def NODES_def snap1_def)
  have c: "''node2'' \<in> set NODES"
    by (simp add: NODES_def)
  have d: "int (length (appended env_utc ''node2'' dup_ops)) \<le> 120"
    by (simp add: dup_ops_def snap1_def)
  have e: "map time (frame_of (push_all env_utc 120 init_hist dup_ops) ''node2'') =
     [Some (mk_datetime 2023 11 14 22 13 20 0), Some (mk_datetime 2023 11 14 22 13 20 0)]"
    by (simp add: dup_ops_def eval_defs calendar_defs)
  show ?thesis
    using a b c d e history_keeps_equal_times [OF a b c d] by simp
qed

text \<open>
  C9. For a frame reached by appends from the initial session state and shorter than the
  capacity, and for every snapshot, the append returns, \<open>dropna\<close> removes nothing, the new
  frame is one row longer and holds the new row.
\<close>

theorem new_row_survives_dropna:
  assumes "sort_spec e" and "push_all e C init_hist ops = Inr h" and "h n = Some df"
    and "int (length df) < C"
  shows "\<exists>df'. push_history e C now h n (JObj kvs) = Inr (h(n \<mapsto> df')) \<and>
               dropna_time (df @ [make_row e now kvs]) = df @ [make_row e now kvs] \<and>
               length df' = length df + 1 \<and> make_row e now kvs \<in> set df'"
proof -
  let ?row = "make_row e now kvs"
  have t: "list_all has_time df"
    using push_all_sorted [OF assms(1,2,3)] by simp
  have "mset (merge_row e C df ?row) = mset df + {#?row#}"
    by (rule merge_row_no_trim(1) [OF assms(1) t has_time_make_row assms(4)])
  then have "?row \<in># mset (merge_row e C df ?row)"
    by simp
  then have "?row \<in> set (merge_row e C df ?row)"
    by simp
  moreover have "dropna_time (df @ [?row]) = df @ [?row]"
    using t by (simp add: dropna_time_id has_time_make_row)
  ultimately show ?thesis
    using push_history_dict [of h n df e C now kvs] assms(3)
      merge_row_no_trim(2) [OF assms(1) t has_time_make_row assms(4)]
    by blast
qed

theorem new_row_survives_dropna_witness:
  "sort_spec env_utc \<and>
   (\<exists>h df df'. push_all env_utc 120 init_hist ops3 = Inr h \<and> h ''node2'' = Some df \<and>
      int (length df) < 120 \<and> length df = 2 \<and>
      push_history env_utc 120 40 h ''node2'' (JObj [(''humidity'', JInt 40)])
        = Inr (h(''node2'' \<mapsto> df')) \<and>
      length df' = 3 \<and> make_row env_utc 40 [(''humidity'', JInt 40)] \<in> set df')"
proof -
  have a: "sort_spec env_utc"
    by (rule sort_spec_env_utc)
  have b: "ops_ok ops3"
    by (simp add: ops_ok_def ops3_def NODES_def snap1_def)
  have c: "''node2'' \<in> set NODES"
    by (simp add: NODES_def)
  obtain h df where h: "push_all env_utc 120 init_hist ops3 = Inr h" and df: "h ''node2'' = Some df"
    using push_all_runs [OF b c, of env_utc 120] by blast
  have "length (frame_of (push_all env_utc 120 init_hist ops3) ''node2'') = 2"
    by (simp add: ops3_def eval_defs calendar_defs)
  then have l: "length df = 2"
    using frame_of_Inr [OF h df] by simp
  then have lt: "int (length df) < 120"
    by simp
  show ?thesis
    using a h df l lt
      new_row_survives_dropna [OF a h df lt, of 40 "[(''humidity'', JInt 40)]"]
    by auto
qed

text \<open>
  C4. When the relay answers with status \<open>s\<close>: for \<open>200 \<le> s < 300\<close> the outcome is
  success with the message \<open>OK (s)\<close>; for any other status it is failure with the message
  \<open>HTTP s: \<close> followed by the first 200 characters of the response body, at most 200.
\<close>

theorem send_cmd_by_status:
  assumes "post \<lparr> url = u, body_node = node, body_payload = payload, timeout = 3 \<rparr> = Inr r"
  shows "(200 \<le> status_code r \<and> status_code r < 300 \<longrightarrow>
            send_cmd post u node payload =
              Inr (True, lit ''OK ('' @ py_str_int (status_code r) @ lit '')'')) \<and>
         (\<not> (200 \<le> status_code r \<and> status_code r < 300) \<longrightarrow>
            send_cmd post u node payload =
              Inr (False, lit ''HTTP '' @ py_str_int (status_code r) @ lit '': '' @
                          take 200 (resp_text r)) \<and>
            length (take 200 (resp_text r)) \<le> 200)"
  using assms by (simp add: send_cmd_def)

theorem send_cmd_by_status_witness:
  "post204 \<lparr> url = cmd_url, body_node = ''node2'', body_payload = set_rgb, timeout = 3 \<rparr> =
     Inr \<lparr> status_code = 204, resp_text = [] \<rparr> \<and>
   send_cmd post204 cmd_url ''node2'' set_rgb = Inr (True, lit ''OK (204)'') \<and>
   post500 \<lparr> url = cmd_url, body_node = ''node2'', body_payload = set_rgb, timeout = 3 \<rparr> =
     Inr \<lparr> status_code = 500, resp_text = replicate 250 120 \<rparr> \<and>
   send_cmd post500 cmd_url ''node2'' set_rgb =
     Inr (False, lit ''HTTP 500: '' @ replicate 200 120)"
proof -
  have a: "post204 \<lparr> url = cmd_url, body_node = ''node2'', body_payload = set_rgb, timeout = 3 \<rparr> =
     Inr \<lparr> status_code = 204, resp_text = [] \<rparr>"
    by (simp add: post204_def)
  have b: "post500 \<lparr> url = cmd_url, body_node = ''node2'', body_payload = set_rgb, timeout = 3 \<rparr> =
     Inr \<lparr> status_code = 500, resp_text = replicate 250 120 \<rparr>"
    by (simp add: post500_def)
  have c: "py_str_int 204 = lit ''204''" "py_str_int 500 = lit ''500''"
    by (simp_all add: py_str_int_def lit_def digits.simps)
  show ?thesis
    using a b
      send_cmd_by_status [where post = post204 and u = cmd_url and node = "''node2''"
        and payload = set_rgb and r = "\<lparr> status_code = 204, resp_text = [] \<rparr>"]
      send_cmd_by_status [where post = post500 and u = cmd_url and node = "''node2''"
        and payload = set_rgb and r = "\<lparr> status_code = 500, resp_text = replicate 250 120 \<rparr>"]
    by (simp add: c lit_def)
qed

text \<open>
  C5. When the request raises a transport error (timeout, connection refused, DNS failure,
  TLS error), \<open>send_cmd\<close> returns failure with the error's text as message; it returns,
  no exception reaches the caller.
\<close>

theorem send_cmd_transport_error:
  assumes "post \<lparr> url = u, body_node = node, body_payload = payload, timeout = 3 \<rparr> = Inl (Exn c m)"
    and "c \<in> {Timeout, ConnectionRefused, DNSFailure, TLSError}"
  shows "send_cmd post u node payload = Inr (False, m)"
  using assms by (auto simp: send_cmd_def)

theorem send_cmd_transport_error_witness:
  "post_timeout \<lparr> url = cmd_url, body_node = ''node2'', body_payload = set_rgb, timeout = 3 \<rparr> =
     Inl (Exn Timeout (lit ''timed out'')) \<and>
   Timeout \<in> {Timeout, ConnectionRefused, DNSFailure, TLSError} \<and>
   send_cmd post_timeout cmd_url ''node2'' set_rgb = Inr (False, lit ''timed out'')"
proof -
  have a: "post_timeout \<lparr> url = cmd_url, body_node = ''node2'', body_payload = set_rgb, timeout = 3 \<rparr> =
     Inl (Exn Timeout (lit ''timed out''))"
    by (simp add: post_timeout_def)
  have b: "Timeout \<in> {Timeout, ConnectionRefused, DNSFailure, TLSError}"
    by simp
  show ?thesis
    using a b
      send_cmd_transport_error [where post = post_timeout and u = cmd_url
        and node = "''node2''" and payload = set_rgb and c = Timeout
        and m = "lit ''timed out''"]
    by simp
qed

text \<open>
  C6. When the read of the store raises, \<open>fb_get_last\<close> raises the same exception: it
  returns no value, so the outcome differs from every returned value, the empty one of
  "no data" included, and the live fetch that called it ends with that exception.
\<close>

theorem fetch_error_propagates:
  assumes "db (''/iot/'' @ node @ ''/last'') = Inl x"
  shows "fb_get_last db node = Inl x \<and> (\<forall>v. fb_get_last db node \<noteq> Inr v) \<and>
         live_fetch e C now db h node = Inl (External x)"
  using assms by (simp add: fb_get_last_def live_fetch_def)

theorem fetch_error_propagates_witness:
  "db_down (''/iot/'' @ ''node2'' @ ''/last'') = Inl (Exn ServiceError (lit ''unavailable'')) \<and>
   fb_get_last db_down ''node2'' = Inl (Exn ServiceError (lit ''unavailable'')) \<and>
   fb_get_last db_down ''node2'' \<noteq> fb_get_last db_empty ''node2'' \<and>
   live_fetch env_utc 120 0 db_down init_hist ''node2'' =
     Inl (External (Exn ServiceError (lit ''unavailable''))) \<and>
   live_fetch env_utc 120 0 db_empty init_hist ''node2'' = Inr init_hist"
proof -
  have a: "db_down (''/iot/'' @ ''node2'' @ ''/last'') = Inl (Exn ServiceError (lit ''unavailable''))"
    by (simp add: db_down_def)
  have b: "fb_get_last db_empty ''node2'' = Inr JNull"
    by (simp add: fb_get_last_def db_empty_def)
  have c: "live_fetch env_utc 120 0 db_empty init_hist ''node2'' = Inr init_hist"
    by (simp add: live_fetch_def b)
  show ?thesis
    using a b c
      fetch_error_propagates [where db = db_down and node = "''node2''"
        and x = "Exn ServiceError (lit ''unavailable'')" and e = env_utc and C = 120
        and now = 0 and h = init_hist]
    by simp
qed




text \<open>
  C10. When the fetch returns no snapshot (\<open>None\<close>) or an empty one (\<open>{}\<close>), the live
  fetch appends nothing: the session state, hence the frame of every node, is unchanged.
\<close>

theorem empty_snapshot_leaves_history:
  assumes "fb_get_last db node = Inr v" and "v = JNull \<or> v = JObj []"
  shows "live_fetch e C now db h node = Inr h"
  using assms by (auto simp: live_fetch_def)

theorem empty_snapshot_witness:
  "fb_get_last db_empty ''node2'' = Inr JNull \<and>
   live_fetch env_utc 120 0 db_empty init_hist ''node2'' = Inr init_hist \<and>
   fb_get_last db_empty_dict ''node2'' = Inr (JObj []) \<and>
   live_fetch env_utc 120 0 db_empty_dict init_hist ''node2'' = Inr init_hist"
proof -
  have a: "fb_get_last db_empty ''node2'' = Inr JNull"
    by (simp add: fb_get_last_def db_empty_def)
  have b: "fb_get_last db_empty_dict ''node2'' = Inr (JObj [])"
    by (simp add: fb_get_last_def db_empty_dict_def)
  show ?thesis
    using a b
      empty_snapshot_leaves_history [where db = db_empty and node = "''node2''"
        and v = JNull and e = env_utc and C = 120 and now = 0 and h = init_hist]
      empty_snapshot_leaves_history [where db = db_empty_dict and node = "''node2''"
        and v = "JObj []" and e = env_utc and C = 120 and now = 0 and h = init_hist]
    by simp
qed

end
